theory Spec2Isabelle
  imports Main "HOL-Library.Word" "HOL-Library.Stream"
begin

unbundle bit_operations_syntax

section \<open>Data model of the PA1010D driver\<close>

text \<open>
  The driver is the Python class \<open>PA1010D\<close> of \<open>library/pa1010d/__init__.py\<close>.
  Bytes on the bus are Python ints in \<open>range(256)\<close>, modelled as 8-bit words. Python text
  is modelled as \<open>string\<close>; a character at or above 128 stands for any non-ASCII code
  point (the only thing the driver does with text is to encode it as ASCII).
  Values the parser library hands over (floats, times, strings) are opaque: \<open>PyObj\<close>.
\<close>

type_synonym byte = "8 word"

datatype error =
    TimeoutError string
  | RuntimeError string
  | ValueError string
  | AttributeError
  | UnicodeEncodeError
  | UnicodeDecodeError

datatype 'a pyval = PyNone | PyInt int | PyObj 'a

text \<open>\<open>class PPS(enum.Enum)\<close> and the \<open>.value\<close> of its members.\<close>

datatype PPS = DISABLE | AFTER_FIRST_FIX | ONLY_3D | ONLY_2D_3D | ALWAYS

fun PPS_value :: "PPS \<Rightarrow> int" where
  "PPS_value DISABLE = 0"
| "PPS_value AFTER_FIRST_FIX = 1"
| "PPS_value ONLY_3D = 2"
| "PPS_value ONLY_2D_3D = 3"
| "PPS_value ALWAYS = 4"

text \<open>
  The slots of a \<open>PA1010D\<close> object, the bus handle apart: the bus, the wall clock and
  standard output are the \<open>world\<close> below, passed explicitly.
\<close>

record 'a pa1010d =
  timestamp :: "'a pyval"
  latitude :: "'a pyval"
  longitude :: "'a pyval"
  altitude :: "'a pyval"
  num_sats :: "'a pyval"
  gps_qual :: "'a pyval"
  speed_over_ground :: "'a pyval"
  mode_fix_type :: "'a pyval"
  pdop :: "'a pyval"
  hdop :: "'a pyval"
  vdop :: "'a pyval"
  i2c_addr :: nat
  debug :: bool

definition PA1010D_ADDR :: nat where
  "PA1010D_ADDR = 0x10"

definition init :: "nat \<Rightarrow> bool \<Rightarrow> 'a pa1010d" where
  "init addr dbg =
     \<lparr> timestamp = PyNone, latitude = PyNone, longitude = PyNone, altitude = PyNone,
       num_sats = PyNone, gps_qual = PyNone, speed_over_ground = PyNone,
       mode_fix_type = PyNone, pdop = PyNone, hdop = PyNone, vdop = PyNone,
       i2c_addr = addr, debug = dbg \<rparr>"

text \<open>
  The world outside the object. \<open>rx\<close> is the sequence of bytes the device will return
  to successive \<open>read_byte_data\<close> calls and \<open>tx\<close> the log of \<open>write_byte\<close> calls
  (address, value). \<open>now\<close> is what \<open>time.time()\<close> returns, in clock ticks of one
  microsecond; the clock advances only through bus reads, the k-th of which takes one tick
  more than the k-th element of \<open>latency\<close>. Faults of the bus itself are not modelled.
\<close>

record world =
  now :: nat
  rx :: "byte stream"
  latency :: "nat stream"
  tx :: "(nat \<times> byte) list"
  stdout :: "string list"

definition ticks_per_second :: nat where
  "ticks_per_second = 1000000"

definition write_byte :: "world \<Rightarrow> nat \<Rightarrow> byte \<Rightarrow> world" where
  "write_byte w addr v = w\<lparr>tx := tx w @ [(addr, v)]\<rparr>"

definition read_byte_data :: "world \<Rightarrow> nat \<Rightarrow> nat \<Rightarrow> byte \<times> world" where
  "read_byte_data w addr reg =
     (shd (rx w),
      w\<lparr>now := now w + Suc (shd (latency w)), rx := stl (rx w), latency := stl (latency w)\<rparr>)"

text \<open>The world after \<open>n\<close> successive bus reads.\<close>

primrec reads :: "nat \<Rightarrow> world \<Rightarrow> world" where
  "reads 0 w = w"
| "reads (Suc n) w = reads n (snd (read_byte_data w 0 0))"

definition print :: "world \<Rightarrow> string \<Rightarrow> world" where
  "print w s = w\<lparr>stdout := stdout w @ [s]\<rparr>"

section \<open>Text and bytes\<close>

text \<open>\<open>str.encode("ascii")\<close> and \<open>bytearray.decode("ascii")\<close>: both raise outside ASCII.\<close>

definition encode_ascii :: "string \<Rightarrow> error + byte list" where
  "encode_ascii s =
     (if list_all (\<lambda>c. (of_char c :: nat) < 128) s then Inr (map of_char s)
      else Inl UnicodeEncodeError)"

definition decode_ascii :: "byte list \<Rightarrow> error + string" where
  "decode_ascii bs =
     (if list_all (\<lambda>b. unat b < 128) bs then Inr (map (\<lambda>b. char_of (unat b)) bs)
      else Inl UnicodeDecodeError)"

definition startswith :: "byte list \<Rightarrow> byte list \<Rightarrow> bool" where
  "startswith xs p = (take (length p) xs = p)"

definition endswith :: "byte list \<Rightarrow> byte list \<Rightarrow> bool" where
  "endswith xs p = (length p \<le> length xs \<and> drop (length xs - length p) xs = p)"

text \<open>The format specification \<open>02X\<close> applied to a non-negative int.\<close>

definition hex_digit :: "nat \<Rightarrow> char" where
  "hex_digit d = ''0123456789ABCDEF'' ! d"

function hex_upper :: "nat \<Rightarrow> string" where
  "hex_upper n = (if n < 16 then [hex_digit n] else hex_upper (n div 16) @ [hex_digit (n mod 16)])"
  by pat_completeness auto
termination
  by (relation "measure id") auto

declare hex_upper.simps [simp del]

definition format_02X :: "nat \<Rightarrow> string" where
  "format_02X n = (let s = hex_upper n in replicate (2 - length s) (CHR ''0'') @ s)"

section \<open>Command encoder\<close>

datatype command = Str string | Bytes "byte list"

definition write_sentence :: "'a pa1010d \<Rightarrow> byte list \<Rightarrow> world \<Rightarrow> world" where
  "write_sentence self bytestring w =
     fold (\<lambda>char_index w'. write_byte w' (i2c_addr self) char_index) bytestring w"

definition send_command :: "'a pa1010d \<Rightarrow> command \<Rightarrow> bool \<Rightarrow> world \<Rightarrow> (error + unit) \<times> world" where
  "send_command self command add_checksum w =
     (case (case command of Str s \<Rightarrow> encode_ascii s | Bytes b \<Rightarrow> Inr b) of
        Inl e \<Rightarrow> (Inl e, w)
      | Inr c0 \<Rightarrow>
          (let c1 = (if startswith c0 [36] then drop 1 c0 else c0);
               c2 = (if endswith c1 [42] then take (length c1 - 1) c1 else c1);
               buf = [36] @ c2
           in case (if add_checksum
                    then (let checksum = fold (\<lambda>char cs. cs XOR char) c2 (0 :: byte)
                          in case encode_ascii (format_02X (unat checksum)) of
                               Inl e \<Rightarrow> Inl e
                             | Inr digits \<Rightarrow> Inr (buf @ [42] @ digits))
                    else Inr buf) of
                Inl e \<Rightarrow> (Inl e, w)
              | Inr buf' \<Rightarrow> (Inr (), write_sentence self (buf' @ [13, 10]) w)))"

text \<open>
  The wire format as the specification words it, for comparison with the code:
  normalisation drops one leading \<open>$\<close> and one trailing \<open>*\<close>, the checksum is the XOR of
  the normalised bytes, written as two upper-case hexadecimal digits.
\<close>

definition spec_normalize :: "byte list \<Rightarrow> byte list" where
  "spec_normalize p =
     (let q = (case p of [] \<Rightarrow> [] | x # xs \<Rightarrow> if x = 36 then xs else p)
      in if q \<noteq> [] \<and> last q = 42 then butlast q else q)"

definition spec_checksum :: "byte list \<Rightarrow> byte" where
  "spec_checksum p = foldr (XOR) p 0"

definition spec_hex_char :: "nat \<Rightarrow> byte" where
  "spec_hex_char d = (if d < 10 then 48 + of_nat d else 65 + of_nat (d - 10))"

definition spec_hex2 :: "byte \<Rightarrow> byte list" where
  "spec_hex2 c = [spec_hex_char (unat c div 16), spec_hex_char (unat c mod 16)]"

definition spec_wire :: "bool \<Rightarrow> byte list \<Rightarrow> byte list" where
  "spec_wire add_checksum p =
     (let q = spec_normalize p
      in [36] @ q @ (if add_checksum then [42] @ spec_hex2 (spec_checksum q) else []) @ [13, 10])"

text \<open>The bytes of a command argument, where it has any.\<close>

fun payload_bytes :: "command \<Rightarrow> byte list option" where
  "payload_bytes (Bytes b) = Some b"
| "payload_bytes (Str s) = (case encode_ascii s of Inr b \<Rightarrow> Some b | Inl e \<Rightarrow> None)"

section \<open>PPS mode encoder\<close>

text \<open>\<open>str.format\<close> of an int: decimal digits, with a minus sign below zero.\<close>

definition dec_digit :: "nat \<Rightarrow> char" where
  "dec_digit d = ''0123456789'' ! d"

function dec_digits :: "nat \<Rightarrow> string" where
  "dec_digits n = (if n < 10 then [dec_digit n] else dec_digits (n div 10) @ [dec_digit (n mod 10)])"
  by pat_completeness auto
termination
  by (relation "measure id") auto

declare dec_digits.simps [simp del]

definition str_int :: "int \<Rightarrow> string" where
  "str_int i = (if i < 0 then CHR ''-'' # dec_digits (nat (- i)) else dec_digits (nat i))"

text \<open>
  The \<open>mode\<close> argument is any Python object: a member of \<open>PPS\<close>, or something else
  (\<open>isinstance(mode, PPS)\<close> is false). \<open>pulse_width\<close> is an int, as documented.
\<close>

datatype 'a mode_arg = PPS_member PPS | NotPPS "'a pyval"

definition set_pps :: "'a pa1010d \<Rightarrow> 'b mode_arg \<Rightarrow> int \<Rightarrow> world \<Rightarrow> (error + unit) \<times> world" where
  "set_pps self mode pulse_width w =
     (case mode of
        NotPPS v \<Rightarrow> (Inl (ValueError ''Mode must be of type PPS''), w)
      | PPS_member m \<Rightarrow>
          (let sentence = ''PMTK285,'' @ str_int (PPS_value m) @ '','' @ str_int pulse_width
           in send_command self (Str sentence) True w))"

section \<open>Framed reader\<close>

text \<open>
  \<open>str.strip()\<close> removes the characters for which \<open>str.isspace()\<close> holds; within ASCII
  these are 9 to 13, 28 to 31 and the space. \<open>replace("\n", "")\<close> removes every line feed.
\<close>

definition isspace :: "char \<Rightarrow> bool" where
  "isspace c = (let n = (of_char c :: nat) in (9 \<le> n \<and> n \<le> 13) \<or> (28 \<le> n \<and> n \<le> 32))"

definition strip :: "string \<Rightarrow> string" where
  "strip s = dropWhile isspace (rev (dropWhile isspace (rev s)))"

definition replace_newline :: "string \<Rightarrow> string" where
  "replace_newline s = filter (\<lambda>c. c \<noteq> CHR 0x0A) s"

text \<open>The slice \<open>buf[-2:]\<close>: the last two elements, or the whole of a shorter list.\<close>

definition last_two :: "'a list \<Rightarrow> 'a list" where
  "last_two xs = drop (length xs - 2) xs"

text \<open>
  The \<open>while\<close> loop of \<open>read_sentence\<close>; \<open>timeout\<close> is the deadline
  \<open>timeout + time.time()\<close> computed before the loop.
\<close>

function read_loop :: "'a pa1010d \<Rightarrow> nat \<Rightarrow> byte list \<Rightarrow> world \<Rightarrow> (error + string) \<times> world" where
  "read_loop self timeout buf w =
     (if now w < timeout then
        (let char = fst (read_byte_data w (i2c_addr self) 0);
             w' = snd (read_byte_data w (i2c_addr self) 0)
         in if length buf = 0 \<and> char \<noteq> 36 then read_loop self timeout buf w'
            else (let buf' = buf @ [char]
                  in if last_two buf' = [13, 10]
                     then (case decode_ascii buf' of
                             Inl e \<Rightarrow> (Inl e, w')
                           | Inr s \<Rightarrow> (Inr (replace_newline (strip s)), w'))
                     else read_loop self timeout buf' w'))
      else (Inl (TimeoutError ''Timeout waiting for readline''), w))"
  by pat_completeness auto
termination
  by (relation "measure (\<lambda>(self, timeout, buf, w). timeout - now w)")
     (auto simp: read_byte_data_def)

declare read_loop.simps [simp del]

definition read_sentence :: "'a pa1010d \<Rightarrow> nat \<Rightarrow> world \<Rightarrow> (error + string) \<times> world" where
  "read_sentence self timeout w = read_loop self (timeout + now w) [] w"

text \<open>
  For stating what the reader frames: a byte sequence with no CR immediately followed by LF,
  and the line as the specification words it (the text from \<open>$\<close> through the byte before
  the closing CR LF, embedded line feeds removed).
\<close>

fun crlf_free :: "byte list \<Rightarrow> bool" where
  "crlf_free (x # y # zs) = (\<not> (x = 13 \<and> y = 10) \<and> crlf_free (y # zs))"
| "crlf_free zs = True"

definition spec_sentence :: "byte list \<Rightarrow> string" where
  "spec_sentence body = map (\<lambda>b. char_of (unat b)) (filter (\<lambda>b. b \<noteq> 10) (36 # body))"

section \<open>Sentence dispatcher\<close>

text \<open>
  What \<open>pynmea2.parse\<close> returns, by class, with the attributes the driver reads.
  \<open>OtherSentence\<close> is any other class of the library, with its module and its name.
  The parser is a parameter: \<open>parse\<close> (\<open>None\<close> for a \<open>ParseError\<close>) and
  whether the library has the module \<open>pynmea2.types.proprietary.mtk\<close>.
\<close>

record 'a gga =
  gga_timestamp :: "'a pyval"
  gga_latitude :: "'a pyval"
  gga_longitude :: "'a pyval"
  gga_altitude :: "'a pyval"
  gga_num_sats :: "'a pyval"
  gga_gps_qual :: "'a pyval"

record 'a gsa =
  gsa_mode_fix_type :: "'a pyval"
  gsa_pdop :: "'a pyval"
  gsa_hdop :: "'a pyval"
  gsa_vdop :: "'a pyval"

datatype 'a nmea =
    GGA "'a gga"
  | GLL
  | GSA "'a gsa"
  | RMC "'a pyval"
  | VTG
  | GSV
  | ProprietarySentence
  | MTK011
  | MTK010
  | OtherSentence string string

record 'a pynmea2 =
  parse :: "string \<Rightarrow> 'a nmea option"
  has_mtk :: bool

text \<open>What \<open>str.format\<close> writes for a class: \<open><class 'module.name'>\<close>.\<close>

definition class_repr :: "string \<Rightarrow> string \<Rightarrow> string" where
  "class_repr module name = ''<class '' @ [CHR 0x27] @ module @ ''.'' @ name @ [CHR 0x27] @ ''>''"

fun type_repr :: "'a nmea \<Rightarrow> string" where
  "type_repr (GGA r) = class_repr ''pynmea2.types.talker'' ''GGA''"
| "type_repr GLL = class_repr ''pynmea2.types.talker'' ''GLL''"
| "type_repr (GSA r) = class_repr ''pynmea2.types.talker'' ''GSA''"
| "type_repr (RMC v) = class_repr ''pynmea2.types.talker'' ''RMC''"
| "type_repr VTG = class_repr ''pynmea2.types.talker'' ''VTG''"
| "type_repr GSV = class_repr ''pynmea2.types.talker'' ''GSV''"
| "type_repr ProprietarySentence = class_repr ''pynmea2.nmea'' ''ProprietarySentence''"
| "type_repr MTK011 = class_repr ''pynmea2.types.proprietary.mtk'' ''MTK011''"
| "type_repr MTK010 = class_repr ''pynmea2.types.proprietary.mtk'' ''MTK010''"
| "type_repr (OtherSentence module name) = class_repr module name"


text \<open>
  The tuple \<open>(pynmea2.types.proprietary.mtk.MTK011, pynmea2.types.proprietary.mtk.MTK010)\<close>:
  evaluating it raises \<open>AttributeError\<close> in a library without the module.
\<close>

definition mtk_classes :: "'a pynmea2 \<Rightarrow> error + 'a nmea list" where
  "mtk_classes P = (if has_mtk P then Inr [MTK011, MTK010] else Inl AttributeError)"

text \<open>
  The \<open>if\<close>/\<open>elif\<close> chain of \<open>update\<close> on one parsed sentence. The first component is
  \<open>None\<close> when control falls through to the next iteration of the loop, \<open>Some (Inr b)\<close>
  for \<open>return b\<close> and \<open>Some (Inl e)\<close> for \<open>raise e\<close>.
\<close>

definition dispatch ::
  "'a pynmea2 \<Rightarrow> string \<Rightarrow> string \<Rightarrow> 'a nmea \<Rightarrow> 'a pa1010d \<Rightarrow> world
    \<Rightarrow> (error + bool) option \<times> 'a pa1010d \<times> world" where
  "dispatch P wait_for sentence result self w =
     (case result of
        GGA r \<Rightarrow>
          (let self' =
             (if gga_gps_qual r = PyNone
              then self\<lparr>num_sats := PyInt 0, gps_qual := PyInt 0\<rparr>
              else self\<lparr>timestamp := gga_timestamp r, latitude := gga_latitude r,
                        longitude := gga_longitude r, altitude := gga_altitude r,
                        num_sats := gga_num_sats r, gps_qual := gga_gps_qual r\<rparr>)
           in (if wait_for = ''GGA'' then Some (Inr True) else None, self', w))
      | GLL \<Rightarrow> (None, self, w)
      | GSA r \<Rightarrow>
          (let self' = self\<lparr>mode_fix_type := gsa_mode_fix_type r, pdop := gsa_pdop r,
                              hdop := gsa_hdop r, vdop := gsa_vdop r\<rparr>
           in (if wait_for = ''GSA'' then Some (Inr True) else None, self', w))
      | RMC spd_over_grnd \<Rightarrow>
          (let self' = self\<lparr>speed_over_ground := spd_over_grnd\<rparr>
           in (if wait_for = ''RMC'' then Some (Inr True) else None, self', w))
      | VTG \<Rightarrow> (if wait_for = ''VTG'' then Some (Inr True) else None, self, w)
      | GSV \<Rightarrow> (if wait_for = ''GSV'' then Some (Inr True) else None, self, w)
      | ProprietarySentence \<Rightarrow>
          (Some (Inr True), self, if debug self then print w sentence else w)
      | _ \<Rightarrow>
          (case (case mtk_classes P of
                   Inr classes \<Rightarrow> if result \<in> set classes then Some (Inr True) else None
                 | Inl e \<Rightarrow> None) of
             Some r \<Rightarrow> (Some r, self, w)
           | None \<Rightarrow>
               (Some (Inl (RuntimeError (''Unsupported message type '' @ type_repr result
                                        @ '' ('' @ sentence @ '')''))), self, w)))"


fun unrecognized :: "'a pynmea2 \<Rightarrow> 'a nmea \<Rightarrow> bool" where
  "unrecognized P (OtherSentence module name) = True"
| "unrecognized P MTK011 = (\<not> has_mtk P)"
| "unrecognized P MTK010 = (\<not> has_mtk P)"
| "unrecognized P result = False"


text \<open>One pass through the body of the \<open>while\<close> loop of \<open>update\<close>.\<close>

definition loop_body ::
  "'a pynmea2 \<Rightarrow> string \<Rightarrow> 'a pa1010d \<Rightarrow> world \<Rightarrow> (error + bool) option \<times> 'a pa1010d \<times> world" where
  "loop_body P wait_for self w =
     (case read_sentence self (5 * ticks_per_second) w of
        (Inl e, w1) \<Rightarrow>
          (case e of TimeoutError m \<Rightarrow> (None, self, w1) | _ \<Rightarrow> (Some (Inl e), self, w1))
      | (Inr sentence, w1) \<Rightarrow>
          (case parse P sentence of
             None \<Rightarrow>
               (None, self, if debug self then print w1 (''Parse error: '' @ sentence) else w1)
           | Some result \<Rightarrow> dispatch P wait_for sentence result self w1))"

section \<open>The clock advances through every read\<close>

lemma read_byte_data_now:
  "now (snd (read_byte_data w a r)) = now w + Suc (shd (latency w))"
  by (simp add: read_byte_data_def)

lemma read_byte_data_fst: "fst (read_byte_data w a r) = shd (rx w)"
  by (simp add: read_byte_data_def)

lemma read_loop_timeout:
  "\<not> now w < timeout \<Longrightarrow>
   read_loop self timeout buf w = (Inl (TimeoutError ''Timeout waiting for readline''), w)"
  by (subst read_loop.simps) simp

lemma read_loop_skip:
  "now w < timeout \<Longrightarrow> shd (rx w) \<noteq> 36 \<Longrightarrow>
   read_loop self timeout [] w = read_loop self timeout [] (snd (read_byte_data w (i2c_addr self) 0))"
  by (subst read_loop.simps) (simp add: Let_def read_byte_data_fst)

lemma read_loop_more:
  "now w < timeout \<Longrightarrow> buf \<noteq> [] \<or> shd (rx w) = 36 \<Longrightarrow>
   last_two (buf @ [shd (rx w)]) \<noteq> [13, 10] \<Longrightarrow>
   read_loop self timeout buf w =
     read_loop self timeout (buf @ [shd (rx w)]) (snd (read_byte_data w (i2c_addr self) 0))"
  by (subst read_loop.simps) (auto simp add: Let_def read_byte_data_fst)

lemma read_loop_done:
  "now w < timeout \<Longrightarrow> buf \<noteq> [] \<or> shd (rx w) = 36 \<Longrightarrow>
   last_two (buf @ [shd (rx w)]) = [13, 10] \<Longrightarrow>
   read_loop self timeout buf w =
     (case_sum Inl (\<lambda>s. Inr (replace_newline (strip s))) (decode_ascii (buf @ [shd (rx w)])),
      snd (read_byte_data w (i2c_addr self) 0))"
  by (subst read_loop.simps) (auto simp add: Let_def read_byte_data_fst split: sum.splits)

lemma read_loop_now_mono: "now w \<le> now (snd (read_loop self timeout buf w))"
proof (induction self timeout buf w rule: read_loop.induct)
  case (1 self timeout buf w)
  let ?c = "fst (read_byte_data w (i2c_addr self) 0)"
  let ?w = "snd (read_byte_data w (i2c_addr self) 0)"
  have c: "?c = shd (rx w)" by (rule read_byte_data_fst)
  have step: "now w \<le> now ?w" by (simp add: read_byte_data_now)
  show ?case
  proof (cases "now w < timeout")
    case False
    then show ?thesis by (simp add: read_loop_timeout)
  next
    case lt: True
    show ?thesis
    proof (cases "length buf = 0 \<and> ?c \<noteq> 36")
      case skip: True
      from "1.IH"(1) [OF lt refl refl skip] step lt skip show ?thesis
        by (simp add: read_loop_skip c)
    next
      case keep: False
      then have k: "buf \<noteq> [] \<or> shd (rx w) = 36" by (simp add: c)
      show ?thesis
      proof (cases "last_two (buf @ [?c]) = [13, 10]")
        case True
        then have "last_two (buf @ [shd (rx w)]) = [13, 10]" by (simp add: c)
        from read_loop_done [where self = self, OF lt k this] step show ?thesis
          by (simp split: sum.splits)
      next
        case more: False
        then have m: "last_two (buf @ [shd (rx w)]) \<noteq> [13, 10]" by (simp add: c)
        from "1.IH"(2) [OF lt refl refl keep refl more] step show ?thesis
          by (simp add: read_loop_more [OF lt k m] c)
      qed
    qed
  qed
qed

lemma read_sentence_advances:
  "0 < timeout \<Longrightarrow> now w < now (snd (read_sentence self timeout w))"
proof -
  assume pos: "0 < timeout"
  let ?w = "snd (read_byte_data w (i2c_addr self) 0)"
  let ?d = "timeout + now w"
  have lt: "now w < ?d" using pos by simp
  have step: "now w < now ?w" by (simp add: read_byte_data_now)
  have "\<exists>buf'. snd (read_loop self ?d [] w) = snd (read_loop self ?d buf' ?w)
          \<or> snd (read_loop self ?d [] w) = ?w"
  proof (cases "shd (rx w) = 36")
    case False
    then show ?thesis using read_loop_skip [OF lt False, of self] by auto
  next
    case True
    have l2: "last_two ([] @ [shd (rx w)]) \<noteq> [13, 10]" by (simp add: last_two_def)
    from read_loop_more [OF lt _ l2, of self] True show ?thesis by auto
  qed
  then show ?thesis
    using read_loop_now_mono [of ?w self ?d] step
    by (auto simp: read_sentence_def intro: less_le_trans)
qed

lemma dispatch_now: "now (snd (snd (dispatch P wait_for sentence result self w))) = now w"
  by (cases result) (simp_all add: dispatch_def Let_def print_def split: sum.splits option.splits)

lemma loop_body_advances: "now w < now (snd (snd (loop_body P wait_for self w)))"
proof -
  have "now w < now (snd (read_sentence self (5 * ticks_per_second) w))"
    by (rule read_sentence_advances) (simp add: ticks_per_second_def)
  then show ?thesis
    by (cases "read_sentence self (5 * ticks_per_second) w")
       (auto simp: loop_body_def dispatch_now print_def split: sum.splits error.splits option.splits)
qed

text \<open>
  The \<open>while\<close> loop of \<open>update\<close>, with the deadline \<open>timeout + time.time()\<close>
  computed before it. Every pass reads at least one byte, so the deadline is reached.
\<close>

function update_loop ::
  "'a pynmea2 \<Rightarrow> string \<Rightarrow> nat \<Rightarrow> 'a pa1010d \<Rightarrow> world \<Rightarrow> (error + bool) \<times> 'a pa1010d \<times> world" where
  "update_loop P wait_for timeout self w =
     (if now w < timeout then
        (let r = loop_body P wait_for self w
         in case fst r of
              None \<Rightarrow> update_loop P wait_for timeout (fst (snd r)) (snd (snd r))
            | Some res \<Rightarrow> (res, snd r))
      else (Inl (TimeoutError (''Timeout waiting for '' @ wait_for @ '' message.'')), self, w))"
  by pat_completeness auto
termination
proof (relation "measure (\<lambda>(P, wait_for, timeout, self, w). timeout - now w)")
  show "wf (measure (\<lambda>(P :: 'a pynmea2, wait_for :: string, timeout, self :: 'a pa1010d, w). timeout - now w))"
    by simp
next
  fix P :: "'a pynmea2" and wait_for timeout and self :: "'a pa1010d" and w r
  assume "now w < timeout" and "r = loop_body P wait_for self w"
  then show "((P, wait_for, timeout, fst (snd r), snd (snd r)), (P, wait_for, timeout, self, w))
      \<in> measure (\<lambda>(P, wait_for, timeout, self, w). timeout - now w)"
    using loop_body_advances [of w P wait_for self] by (simp add: case_prod_beta)
qed

declare update_loop.simps [simp del]


section \<open>Fixtures for concrete runs\<close>

text \<open>
  An idle device that only returns line feeds, and a fresh driver object. In concrete
  runs an opaque Python value is written as its text.
\<close>

definition idle_world :: world where
  "idle_world = \<lparr> now = 0, rx = sconst 10, latency = sconst 0, tx = [], stdout = [] \<rparr>"

definition fresh :: "string pa1010d" where
  "fresh = init PA1010D_ADDR False"

text \<open>Line noise, then \<open>$GPGLL\<close> with a stray line feed inside; and \<open>$A\<close> with a trailing space.\<close>

definition noisy_world :: world where
  "noisy_world = \<lparr> now = 0,
     rx = [10, 65] @- (36 ## ((map of_char ''GPG'' @ [10] @ map of_char ''LL'') @- (13 ## 10 ## sconst 10))),
     latency = sconst 0, tx = [], stdout = [] \<rparr>"

definition padded_world :: world where
  "padded_world = \<lparr> now = 0,
     rx = 36 ## (map of_char ''A '' @- (13 ## 10 ## sconst 10)),
     latency = sconst 0, tx = [], stdout = [] \<rparr>"

text \<open>Two position fixes without a position, one with no quality field and one with quality 0;
  and a parser that rejects every line.\<close>

definition gga_no_quality :: "string gga" where
  "gga_no_quality = \<lparr> gga_timestamp = PyObj ''12:35:19'', gga_latitude = PyObj ''0.0'',
      gga_longitude = PyObj ''0.0'', gga_altitude = PyNone, gga_num_sats = PyObj ''00'',
      gga_gps_qual = PyNone \<rparr>"

definition gga_quality_zero :: "string gga" where
  "gga_quality_zero = gga_no_quality\<lparr>gga_gps_qual := PyInt 0\<rparr>"

definition no_parser :: "string pynmea2" where
  "no_parser = \<lparr> parse = (\<lambda>line. None), has_mtk = False \<rparr>"

text \<open>
  A device that sends one frame, \<open>$\<close> and the given bytes and CR LF, a byte a tick, and
  is idle and slow afterwards: every later read returns a line feed after five seconds.
  A device that is idle and slow from the start. A parser that knows three lines.
\<close>

definition frame_world :: "byte list \<Rightarrow> world" where
  "frame_world body = \<lparr> now = 0,
     rx = 36 ## (body @- (13 ## 10 ## sconst 10)),
     latency = replicate (length body + 3) 0 @- sconst 4999999, tx = [], stdout = [] \<rparr>"

definition slow_world :: world where
  "slow_world = \<lparr> now = 0, rx = sconst 10, latency = sconst 4999999, tx = [], stdout = [] \<rparr>"

definition demo_parser :: "string pynmea2" where
  "demo_parser = \<lparr> parse = (\<lambda>line.
       if line = ''$GPGGA'' then Some (GGA gga_no_quality)
       else if line = ''$GPGLL'' then Some GLL
       else if line = ''$GPZDA'' then Some (OtherSentence ''pynmea2.types.talker'' ''ZDA'')
       else None),
     has_mtk = False \<rparr>"

section \<open>Command encoder: the bytes on the wire\<close>

lemma write_sentence_tx:
  "write_sentence self bs w = w\<lparr>tx := tx w @ map (Pair (i2c_addr self)) bs\<rparr>"
  unfolding write_sentence_def
  by (induction bs arbitrary: w) (simp_all add: write_byte_def)

lemma startswith_dollar: "startswith c0 [36] \<longleftrightarrow> (c0 \<noteq> [] \<and> hd c0 = 36)"
  by (cases c0) (auto simp: startswith_def)

lemma endswith_star: "endswith c [42] \<longleftrightarrow> (c \<noteq> [] \<and> last c = 42)"
  by (cases c rule: rev_cases) (simp_all add: endswith_def)

lemma normalize_spec:
  "(let c1 = (if startswith c0 [36] then drop 1 c0 else c0)
    in if endswith c1 [42] then take (length c1 - 1) c1 else c1) = spec_normalize c0"
proof (cases c0)
  case Nil
  then show ?thesis
    by (simp add: spec_normalize_def startswith_dollar endswith_star)
next
  case (Cons x xs)
  show ?thesis
  proof (cases "x = 36")
    case True
    with Cons show ?thesis
      by (simp add: spec_normalize_def startswith_dollar endswith_star butlast_conv_take)
  next
    case False
    with Cons show ?thesis
      by (simp add: spec_normalize_def startswith_dollar endswith_star butlast_conv_take
          Let_def del: butlast.simps)
  qed
qed

lemma fold_xor_spec: "fold (\<lambda>char cs. cs XOR char) c (a :: byte) = a XOR spec_checksum c"
  unfolding spec_checksum_def
  by (induction c arbitrary: a) (simp_all add: xor.assoc xor.commute xor.left_commute)

lemma lt16_cases:
  "d < 16 \<Longrightarrow> d \<in> {0, 1, 2, 3, 4, 5, 6, 7, 8, 9, 10, 11, 12, 13, 14, 15 :: nat}"
  by simp arith

lemma hex_digit_byte:
  assumes "d < 16"
  shows "(of_char (hex_digit d) :: byte) = spec_hex_char d"
  using lt16_cases [OF assms]
  by (elim insertE emptyE; simp add: hex_digit_def spec_hex_char_def)

lemma hex_digit_ascii:
  assumes "d < 16"
  shows "(of_char (hex_digit d) :: nat) < 128"
  using lt16_cases [OF assms]
  by (elim insertE emptyE; simp add: hex_digit_def)

lemma hex_upper_byte: "n < 256 \<Longrightarrow> hex_upper n = (if n < 16 then [hex_digit n] else [hex_digit (n div 16), hex_digit (n mod 16)])"
  by (subst hex_upper.simps, subst hex_upper.simps) (simp add: less_mult_imp_div_less)

lemma hex_upper_ne: "hex_upper n \<noteq> []"
  by (subst hex_upper.simps) simp

lemma format_02X_byte: "n < 256 \<Longrightarrow> format_02X n = [hex_digit (n div 16), hex_digit (n mod 16)]"
  by (simp add: format_02X_def hex_upper_byte hex_digit_def)

lemma encode_format_02X: "encode_ascii (format_02X (unat (c :: byte))) = Inr (spec_hex2 c)"
proof -
  have lt: "unat c < 256" using unsigned_less [of c, where ?'a = nat] by simp
  then have d: "unat c div 16 < 16" by (simp add: less_mult_imp_div_less)
  show ?thesis
    by (simp add: format_02X_byte [OF lt] encode_ascii_def spec_hex2_def
        hex_digit_ascii [OF d] hex_digit_byte [OF d] hex_digit_ascii hex_digit_byte)
qed

lemma send_command_encoded:
  "(case command of Str s \<Rightarrow> encode_ascii s | Bytes b \<Rightarrow> Inr b) = Inr p \<Longrightarrow>
   send_command self command add_checksum w =
     (Inr (), w\<lparr>tx := tx w @ map (Pair (i2c_addr self)) (spec_wire add_checksum p)\<rparr>)"
  using normalize_spec [of p]
  by (simp add: send_command_def Let_def write_sentence_tx spec_wire_def
      fold_xor_spec encode_format_02X)

lemma payload_bytes_Some:
  "payload_bytes command = Some p \<longleftrightarrow>
   (case command of Str s \<Rightarrow> encode_ascii s | Bytes b \<Rightarrow> Inr b) = Inr p"
  by (cases command) (auto simp: encode_ascii_def split: sum.splits)

lemma send_command_payload:
  "payload_bytes command = Some p \<Longrightarrow>
   send_command self command add_checksum w =
     (Inr (), w\<lparr>tx := tx w @ map (Pair (i2c_addr self)) (spec_wire add_checksum p)\<rparr>)"
  by (simp add: payload_bytes_Some send_command_encoded)

lemma send_command_unencodable:
  "payload_bytes command = None \<Longrightarrow>
   send_command self command add_checksum w = (Inl UnicodeEncodeError, w)"
  by (cases command) (auto simp: send_command_def encode_ascii_def split: if_splits)

lemma spec_wire_PMTK285:
  "spec_wire True (map of_char ''PMTK285,4,100'') = map of_char ''$PMTK285,4,100*38'' @ [13, 10]"
  by (simp add: spec_wire_def spec_normalize_def spec_checksum_def spec_hex2_def spec_hex_char_def)

text \<open>
  C1, as the code has it. A command given as bytes, or as text that is all ASCII, is written
  to the bus as \<open>$\<close>, the normalised payload, then (with \<open>add_checksum\<close>) \<open>*\<close> and the
  XOR of the normalised payload bytes as two upper-case hexadecimal digits, then CR LF;
  normalisation drops one leading \<open>$\<close> and one trailing \<open>*\<close>. A text with a character
  outside ASCII has no payload bytes: \<open>encode("ascii")\<close> raises and nothing is written.
\<close>

theorem send_command_wire:
  "(case payload_bytes command of
      Some p \<Rightarrow>
        send_command self command add_checksum w =
          (Inr (), w\<lparr>tx := tx w @ map (Pair (i2c_addr self)) (spec_wire add_checksum p)\<rparr>)
    | None \<Rightarrow> send_command self command add_checksum w = (Inl UnicodeEncodeError, w))"
  by (simp add: send_command_payload send_command_unencodable split: option.split)

text \<open>The command \<open>PMTK285,4,100\<close> goes out as \<open>$PMTK285,4,100*38\<close> CR LF.\<close>

theorem send_command_wire_witness:
  "payload_bytes (Str ''PMTK285,4,100'') = Some (map of_char ''PMTK285,4,100'') \<and>
   send_command fresh (Str ''PMTK285,4,100'') True idle_world =
     (Inr (), idle_world\<lparr>tx := map (Pair 16) (map of_char ''$PMTK285,4,100*38'' @ [13, 10])\<rparr>)"
proof -
  have p: "payload_bytes (Str ''PMTK285,4,100'') = Some (map of_char ''PMTK285,4,100'')"
    by (simp add: encode_ascii_def)
  have a: "i2c_addr fresh = 16" by (simp add: fresh_def init_def PA1010D_ADDR_def)
  have t: "tx idle_world = []" by (simp add: idle_world_def)
  show ?thesis
    using send_command_wire [where command = "Str ''PMTK285,4,100''" and self = fresh
        and add_checksum = True and w = idle_world] p
    by (simp only: spec_wire_PMTK285 a t append_Nil simp_thms option.case)
qed

text \<open>
  C1 as stated, for every text, fails at the one-character text U+00E9: the call raises
  \<open>UnicodeEncodeError\<close> and the bus log stays as it was, with no byte written.
\<close>

theorem send_command_text_counterexample:
  "send_command fresh (Str [CHR 0xE9]) True idle_world = (Inl UnicodeEncodeError, idle_world) \<and>
   tx idle_world \<noteq>
     tx idle_world @ map (Pair (i2c_addr fresh)) (spec_wire True (map of_char [CHR 0xE9]))"
  by (simp add: send_command_def encode_ascii_def spec_wire_def Let_def)

section \<open>Commands that already bear delimiters\<close>

lemma startswith_Cons: "startswith (x # xs) [36] \<longleftrightarrow> x = 36"
  by (simp add: startswith_def)

lemma spec_normalize_bare:
  "\<not> startswith p [36] \<Longrightarrow> \<not> endswith p [42] \<Longrightarrow> spec_normalize p = p"
  by (cases p) (auto simp: spec_normalize_def startswith_dollar endswith_star Let_def)

lemma spec_normalize_wrapped: "spec_normalize (36 # p @ [42]) = p"
  by (simp add: spec_normalize_def)

lemma spec_normalize_dollar:
  "\<not> endswith p [42] \<Longrightarrow> spec_normalize (36 # p) = p"
  by (auto simp: spec_normalize_def endswith_star)

lemma spec_normalize_star:
  "\<not> startswith p [36] \<Longrightarrow> spec_normalize (p @ [42]) = p"
  by (cases p) (auto simp: spec_normalize_def startswith_dollar)

lemma spec_hex_char_not_star: "d < 16 \<Longrightarrow> spec_hex_char d \<noteq> 42"
  by (drule lt16_cases) (auto simp: spec_hex_char_def)

lemma spec_normalize_framed:
  "spec_normalize (36 # p @ 42 # spec_hex2 c) = p @ 42 # spec_hex2 c"
  by (simp add: spec_normalize_def spec_hex2_def spec_hex_char_not_star)

text \<open>
  C3, as the code has it. Let \<open>p\<close> be a bare payload: it neither begins with \<open>$\<close> nor ends
  with \<open>*\<close>. Then \<open>p\<close> with a leading \<open>$\<close>, a trailing \<open>*\<close> or both is written as the
  same wire bytes as \<open>p\<close> itself. The checksum digits of a fully framed command are not
  removed: they are sent as they are when \<open>add_checksum\<close> is false, which gives the wire
  bytes of the bare payload sent with the checksum.
\<close>

theorem send_command_rewrap:
  assumes bare: "\<not> startswith p [36]" "\<not> endswith p [42]"
    and c: "payload_bytes c = Some p"
    and d: "payload_bytes d \<in> {Some ([36] @ p @ [42]), Some ([36] @ p), Some (p @ [42])}"
    and f: "payload_bytes f = Some ([36] @ p @ [42] @ spec_hex2 (spec_checksum p))"
  shows "send_command self d add_checksum w = send_command self c add_checksum w \<and>
         send_command self f False w = send_command self c True w"
proof
  from d obtain q where q: "payload_bytes d = Some q" and n: "spec_normalize q = p"
    using bare by (auto simp: spec_normalize_wrapped spec_normalize_dollar spec_normalize_star)
  have "spec_wire add_checksum q = spec_wire add_checksum p"
    by (simp add: spec_wire_def n spec_normalize_bare [OF bare])
  then show "send_command self d add_checksum w = send_command self c add_checksum w"
    by (simp add: send_command_payload [OF q] send_command_payload [OF c])
next
  have "spec_wire False ([36] @ p @ [42] @ spec_hex2 (spec_checksum p)) = spec_wire True p"
    by (simp add: spec_wire_def spec_normalize_framed spec_normalize_bare [OF bare] Let_def)
  then show "send_command self f False w = send_command self c True w"
    by (simp add: send_command_payload [OF f] send_command_payload [OF c])
qed

lemma spec_wire_PMTK285_framed:
  "spec_wire True (map of_char ''$PMTK285,4,100*38'') = map of_char ''$PMTK285,4,100*38*19'' @ [13, 10]"
  by (simp add: spec_wire_def spec_normalize_def spec_checksum_def spec_hex2_def spec_hex_char_def)

theorem send_command_rewrap_witness:
  "\<not> startswith (map of_char ''PMTK285,4,100'') [36] \<and>
   \<not> endswith (map of_char ''PMTK285,4,100'') [42] \<and>
   payload_bytes (Str ''PMTK285,4,100'') = Some (map of_char ''PMTK285,4,100'') \<and>
   payload_bytes (Str ''$PMTK285,4,100*'') = Some ([36] @ map of_char ''PMTK285,4,100'' @ [42]) \<and>
   payload_bytes (Bytes (map of_char ''$PMTK285,4,100*38'')) =
     Some ([36] @ map of_char ''PMTK285,4,100'' @ [42]
           @ spec_hex2 (spec_checksum (map of_char ''PMTK285,4,100''))) \<and>
   send_command fresh (Str ''$PMTK285,4,100*'') True idle_world =
     send_command fresh (Str ''PMTK285,4,100'') True idle_world \<and>
   send_command fresh (Bytes (map of_char ''$PMTK285,4,100*38'')) False idle_world =
     send_command fresh (Str ''PMTK285,4,100'') True idle_world"
proof -
  let ?p = "map of_char ''PMTK285,4,100'' :: byte list"
  have b1: "\<not> startswith ?p [36]" by (simp add: startswith_def)
  have b2: "\<not> endswith ?p [42]" by (simp add: endswith_def)
  have c: "payload_bytes (Str ''PMTK285,4,100'') = Some ?p"
    by (simp add: encode_ascii_def)
  have d: "payload_bytes (Str ''$PMTK285,4,100*'') = Some ([36] @ ?p @ [42])"
    by (simp add: encode_ascii_def)
  have d': "payload_bytes (Str ''$PMTK285,4,100*'') \<in> {Some ([36] @ ?p @ [42]), Some ([36] @ ?p), Some (?p @ [42])}"
    using d by blast
  have f: "payload_bytes (Bytes (map of_char ''$PMTK285,4,100*38'')) =
      Some ([36] @ ?p @ [42] @ spec_hex2 (spec_checksum ?p))"
    by (simp add: spec_checksum_def spec_hex2_def spec_hex_char_def)
  from send_command_rewrap [OF b1 b2 c d' f, of fresh True idle_world] b1 b2 c d f
  show ?thesis by blast
qed

text \<open>
  C3 as stated fails for the fully framed command \<open>$PMTK285,4,100*38\<close>: sent with the
  checksum it goes out as \<open>$PMTK285,4,100*38*19\<close>, a second checksum after the first,
  and not as the wire bytes of the bare payload.
\<close>

theorem send_command_rewrap_counterexample:
  "spec_hex2 (spec_checksum (map of_char ''PMTK285,4,100'')) = map of_char ''38'' \<and>
   send_command fresh (Str ''PMTK285,4,100'') True idle_world =
     (Inr (), idle_world\<lparr>tx := map (Pair 16) (map of_char ''$PMTK285,4,100*38'' @ [13, 10])\<rparr>) \<and>
   send_command fresh (Str ''$PMTK285,4,100*38'') True idle_world =
     (Inr (), idle_world\<lparr>tx := map (Pair 16) (map of_char ''$PMTK285,4,100*38*19'' @ [13, 10])\<rparr>) \<and>
   send_command fresh (Str ''$PMTK285,4,100*38'') True idle_world \<noteq>
     send_command fresh (Str ''PMTK285,4,100'') True idle_world"
proof -
  have a: "i2c_addr fresh = 16" by (simp add: fresh_def init_def PA1010D_ADDR_def)
  have t: "tx idle_world = []" by (simp add: idle_world_def)
  have h: "spec_hex2 (spec_checksum (map of_char ''PMTK285,4,100'')) = map of_char ''38''"
    by (simp add: spec_checksum_def spec_hex2_def spec_hex_char_def)
  have p: "payload_bytes (Str ''PMTK285,4,100'') = Some (map of_char ''PMTK285,4,100'')"
    by (simp add: encode_ascii_def)
  have q: "payload_bytes (Str ''$PMTK285,4,100*38'') = Some (map of_char ''$PMTK285,4,100*38'')"
    by (simp add: encode_ascii_def)
  have 1: "send_command fresh (Str ''PMTK285,4,100'') True idle_world =
     (Inr (), idle_world\<lparr>tx := map (Pair 16) (map of_char ''$PMTK285,4,100*38'' @ [13, 10])\<rparr>)"
    by (simp only: send_command_payload [OF p] spec_wire_PMTK285 a t append_Nil)
  have 2: "send_command fresh (Str ''$PMTK285,4,100*38'') True idle_world =
     (Inr (), idle_world\<lparr>tx := map (Pair 16) (map of_char ''$PMTK285,4,100*38*19'' @ [13, 10])\<rparr>)"
    by (simp only: send_command_payload [OF q] spec_wire_PMTK285_framed a t append_Nil)
  have 3: "tx (snd (send_command fresh (Str ''$PMTK285,4,100*38'') True idle_world)) \<noteq>
           tx (snd (send_command fresh (Str ''PMTK285,4,100'') True idle_world))"
    unfolding 1 2 by simp
  from h 1 2 3 show ?thesis by metis
qed

section \<open>PPS mode encoder: contract and payload\<close>

lemma lt10_cases: "d < 10 \<Longrightarrow> d \<in> {0, 1, 2, 3, 4, 5, 6, 7, 8, 9 :: nat}"
  by simp arith

lemma dec_digit_range:
  assumes "d < 10"
  shows "(of_char (dec_digit d) :: nat) < 128 \<and> (of_char (dec_digit d) :: byte) \<noteq> 42"
  using lt10_cases [OF assms]
  by (elim insertE emptyE; simp add: dec_digit_def)

lemma dec_digits_ascii: "list_all (\<lambda>c. (of_char c :: nat) < 128) (dec_digits n)"
proof (induction n rule: dec_digits.induct)
  case (1 n)
  show ?case
  proof (cases "n < 10")
    case True
    then show ?thesis
      by (subst dec_digits.simps) (simp add: dec_digit_range)
  next
    case False
    with 1 show ?thesis
      by (subst dec_digits.simps) (simp add: dec_digit_range)
  qed
qed

lemma dec_digits_last: "dec_digits n \<noteq> [] \<and> last (dec_digits n) = dec_digit (n mod 10)"
  by (subst (1 2) dec_digits.simps) simp

lemma str_int_ascii: "list_all (\<lambda>c. (of_char c :: nat) < 128) (str_int i)"
  by (simp add: str_int_def dec_digits_ascii)

lemma str_int_last: "str_int i \<noteq> [] \<and> (of_char (last (str_int i)) :: byte) \<noteq> 42"
  by (simp add: str_int_def dec_digits_last dec_digit_range)

lemma PMTK285_payload:
  "payload_bytes (Str (''PMTK285,'' @ str_int m @ '','' @ str_int pw)) =
     Some (map of_char (''PMTK285,'' @ str_int m @ '','' @ str_int pw))"
  by (simp add: encode_ascii_def str_int_ascii)

lemma PMTK285_bare:
  "spec_normalize (map of_char (''PMTK285,'' @ str_int m @ '','' @ str_int pw)) =
     map of_char (''PMTK285,'' @ str_int m @ '','' @ str_int pw)"
  using str_int_last [of pw]
  by (simp add: spec_normalize_def last_map)

text \<open>
  C9. A \<open>mode\<close> that is not a member of \<open>PPS\<close> is rejected with \<open>ValueError\<close> and the
  world, the bus log included, is as before the call. For a member and any int
  \<open>pulse_width\<close>, with no check of its range, the payload is \<open>PMTK285,\<close> the value of the
  mode \<open>,\<close> the pulse width, and it goes out framed with its checksum.
\<close>

theorem set_pps_contract:
  "set_pps self (NotPPS v) pulse_width w = (Inl (ValueError ''Mode must be of type PPS''), w) \<and>
   set_pps self (PPS_member m) pulse_width w =
     (let payload = map of_char (''PMTK285,'' @ str_int (PPS_value m) @ '','' @ str_int pulse_width)
      in (Inr (), w\<lparr>tx := tx w @ map (Pair (i2c_addr self))
            ([36] @ payload @ [42] @ spec_hex2 (spec_checksum payload) @ [13, 10])\<rparr>))"
proof -
  define s where "s = ''PMTK285,'' @ str_int (PPS_value m) @ '','' @ str_int pulse_width"
  have pb: "payload_bytes (Str s) = Some (map of_char s)"
    unfolding s_def by (rule PMTK285_payload)
  have nb: "spec_normalize (map of_char s) = map of_char s"
    unfolding s_def by (rule PMTK285_bare)
  have "set_pps self (PPS_member m) pulse_width w = send_command self (Str s) True w"
    by (simp add: set_pps_def s_def)
  also have "\<dots> = (Inr (), w\<lparr>tx := tx w @ map (Pair (i2c_addr self))
            ([36] @ map of_char s @ [42] @ spec_hex2 (spec_checksum (map of_char s)) @ [13, 10])\<rparr>)"
    by (simp add: send_command_payload [OF pb] spec_wire_def nb Let_def)
  finally have "set_pps self (PPS_member m) pulse_width w =
     (let payload = map of_char s
      in (Inr (), w\<lparr>tx := tx w @ map (Pair (i2c_addr self))
            ([36] @ payload @ [42] @ spec_hex2 (spec_checksum payload) @ [13, 10])\<rparr>))"
    by (simp add: Let_def)
  moreover have "set_pps self (NotPPS v) pulse_width w =
      (Inl (ValueError ''Mode must be of type PPS''), w)"
    by (simp add: set_pps_def)
  ultimately show ?thesis unfolding s_def by blast
qed

text \<open>The default call \<open>set_pps(PPS.ALWAYS, 100)\<close>, run on the definitions alone.\<close>

lemma set_pps_example:
  "set_pps fresh (PPS_member ALWAYS) 100 idle_world =
     (Inr (), idle_world\<lparr>tx := map (Pair 16) (map of_char ''$PMTK285,4,100*38'' @ [13, 10])\<rparr>)"
  by (simp add: set_pps_def str_int_def dec_digits.simps dec_digit_def
       send_command_def encode_ascii_def startswith_def endswith_def
       format_02X_def hex_upper.simps hex_digit_def write_sentence_def write_byte_def
       fresh_def init_def PA1010D_ADDR_def idle_world_def)

section \<open>Framed reader: resynchronisation on the start delimiter\<close>

lemma snd_read_byte_data: "snd (read_byte_data w a r) = reads (Suc 0) w"
  by (simp add: read_byte_data_def)

lemma reads_Suc: "reads (Suc n) w = reads n (reads (Suc 0) w)"
  by simp

lemma reads_add: "reads (m + n) w = reads n (reads m w)"
  by (induction m arbitrary: w) simp_all

lemma reads_now_mono: "now w \<le> now (reads n w)"
proof (induction n arbitrary: w)
  case 0
  show ?case by simp
next
  case (Suc n)
  have "now w \<le> now (snd (read_byte_data w 0 0))" by (simp add: read_byte_data_def)
  also have "\<dots> \<le> now (reads n (snd (read_byte_data w 0 0)))" by (rule Suc.IH)
  finally show ?case by simp
qed

lemma reads_now_le: "m \<le> n \<Longrightarrow> now (reads m w) \<le> now (reads n w)"
  using reads_now_mono [of "reads m w" "n - m"] reads_add [of m "n - m" w] by simp

lemma rx_reads: "rx (reads n w) = sdrop n (rx w)"
  by (induction n arbitrary: w) (simp_all add: read_byte_data_def)

declare reads.simps [simp del]

lemma reads_0 [simp]: "reads 0 w = w"
  by (simp add: reads.simps)

lemma rx_reads_1: "rx (reads (Suc 0) w) = stl (rx w)"
  by (simp add: reads.simps read_byte_data_def)

lemma last_two_snoc2: "last_two (buf @ [a, b]) = [a, b]"
  by (simp add: last_two_def)

lemma last_two_snoc: "buf \<noteq> [] \<Longrightarrow> last_two (buf @ [x]) = [last buf, x]"
  by (cases buf rule: rev_cases) (simp_all add: last_two_def)

lemma last_two_single: "last_two [x] = [x]"
  by (simp add: last_two_def)

lemma skip_garbage:
  "36 \<notin> set g \<Longrightarrow> rx w = g @- s \<Longrightarrow> now (reads (length g) w) < d \<Longrightarrow>
   read_loop self d [] w = read_loop self d [] (reads (length g) w)"
proof (induction g arbitrary: w)
  case Nil
  show ?case by simp
next
  case (Cons x g)
  let ?w = "reads (Suc 0) w"
  have "now w \<le> now (reads (length (x # g)) w)" by (rule reads_now_mono)
  with Cons.prems(3) have lt: "now w < d" by simp
  have hd: "shd (rx w) \<noteq> 36" using Cons.prems(1,2) by auto
  have rx: "rx ?w = g @- s" using Cons.prems(2) by (simp add: rx_reads_1)
  have t: "now (reads (length g) ?w) < d" using Cons.prems(3) by (simp add: reads_Suc [symmetric])
  have "read_loop self d [] w = read_loop self d [] ?w"
    using read_loop_skip [OF lt hd] by (simp add: snd_read_byte_data)
  also have "\<dots> = read_loop self d [] (reads (length g) ?w)"
    using Cons.prems(1) by (intro Cons.IH [OF _ rx t]) simp
  finally show ?case by (simp add: reads_Suc [symmetric])
qed

lemma accumulate:
  "buf \<noteq> [] \<Longrightarrow> crlf_free (last buf # body) \<Longrightarrow> rx w = body @- (13 ## 10 ## rest) \<Longrightarrow>
   now (reads (Suc (length body)) w) < d \<Longrightarrow>
   read_loop self d buf w =
     (case_sum Inl (\<lambda>s. Inr (replace_newline (strip s))) (decode_ascii (buf @ body @ [13, 10])),
      reads (length body + 2) w)"
proof (induction body arbitrary: buf w)
  case Nil
  let ?w = "reads (Suc 0) w"
  have "now w \<le> now ?w" by (rule reads_now_mono)
  with Nil.prems(4) have lt: "now w < d" and lt': "now ?w < d" by simp_all
  have h: "shd (rx w) = 13" and h': "shd (rx ?w) = 10"
    using Nil.prems(3) by (simp_all add: rx_reads_1)
  have m: "last_two (buf @ [shd (rx w)]) \<noteq> [13, 10]"
    using Nil.prems(1) by (simp add: last_two_snoc h)
  have e: "last_two ((buf @ [13]) @ [shd (rx ?w)]) = [13, 10]"
    by (simp add: last_two_snoc2 h')
  have "read_loop self d buf w = read_loop self d (buf @ [13]) ?w"
    using read_loop_more [OF lt _ m, of self] Nil.prems(1) by (simp add: snd_read_byte_data h)
  also have "\<dots> = (case_sum Inl (\<lambda>s. Inr (replace_newline (strip s)))
        (decode_ascii ((buf @ [13]) @ [shd (rx ?w)])), snd (read_byte_data ?w (i2c_addr self) 0))"
    by (rule read_loop_done [OF lt' _ e]) simp
  finally show ?case
    by (simp add: h' snd_read_byte_data reads_Suc [of "Suc 0", symmetric] numeral_2_eq_2)
next
  case (Cons x body)
  let ?w = "reads (Suc 0) w"
  have "now w \<le> now (reads (Suc (length (x # body))) w)" by (rule reads_now_mono)
  with Cons.prems(4) have lt: "now w < d" by simp
  have h: "shd (rx w) = x" using Cons.prems(3) by simp
  have m: "last_two (buf @ [shd (rx w)]) \<noteq> [13, 10]"
    using Cons.prems(1,2) by (simp add: last_two_snoc h)
  have rx: "rx ?w = body @- (13 ## 10 ## rest)"
    using Cons.prems(3) by (simp add: rx_reads_1)
  have t: "now (reads (Suc (length body)) ?w) < d"
    using Cons.prems(4) by (simp add: reads_Suc [symmetric])
  have c: "crlf_free (last (buf @ [x]) # body)" using Cons.prems(2) by simp
  have "read_loop self d buf w = read_loop self d (buf @ [x]) ?w"
    using read_loop_more [OF lt _ m, of self] Cons.prems(1) by (simp add: snd_read_byte_data h)
  also have "\<dots> = (case_sum Inl (\<lambda>s. Inr (replace_newline (strip s)))
        (decode_ascii ((buf @ [x]) @ body @ [13, 10])), reads (length body + 2) ?w)"
    by (rule Cons.IH [OF _ c rx t]) simp
  finally show ?case by (simp add: reads_Suc [symmetric])
qed

lemma read_sentence_frame:
  assumes g: "36 \<notin> set g" and b: "crlf_free (36 # body)"
    and rx: "rx w = g @- (36 ## (body @- (13 ## 10 ## rest)))"
    and t: "now (reads (length g + length body + 2) w) < timeout + now w"
  shows "read_sentence self timeout w =
     (case_sum Inl (\<lambda>s. Inr (replace_newline (strip s))) (decode_ascii (36 # body @ [13, 10])),
      reads (length g + length body + 3) w)"
proof -
  let ?d = "timeout + now w"
  let ?w1 = "reads (length g) w"
  let ?w2 = "reads (Suc 0) ?w1"
  have le1: "now ?w1 \<le> now (reads (length g + length body + 2) w)"
    by (rule reads_now_le) simp
  with t have t1: "now ?w1 < ?d" by simp
  have rx1: "rx ?w1 = 36 ## (body @- (13 ## 10 ## rest))"
    by (simp add: rx_reads rx sdrop_shift)
  have rx2: "rx ?w2 = body @- (13 ## 10 ## rest)"
    using rx1 by (simp add: rx_reads_1)
  have w2: "reads (Suc (length body)) ?w2 = reads (length g + length body + 2) w"
  proof -
    have "length g + length body + 2 = (length g + Suc 0) + Suc (length body)" by simp
    then show ?thesis by (simp only: reads_add)
  qed
  have t2: "now (reads (Suc (length body)) ?w2) < ?d"
    using t by (simp only: w2)
  have w3: "reads (length body + 2) ?w2 = reads (length g + length body + 3) w"
  proof -
    have "length g + length body + 3 = (length g + Suc 0) + (length body + 2)" by simp
    then show ?thesis by (simp only: reads_add)
  qed
  have "read_sentence self timeout w = read_loop self ?d [] ?w1"
    unfolding read_sentence_def by (rule skip_garbage [OF g rx t1])
  also have "\<dots> = read_loop self ?d [36] ?w2"
    using read_loop_more [OF t1, of "[]" self] rx1
    by (simp add: last_two_single snd_read_byte_data)
  also have "\<dots> = (case_sum Inl (\<lambda>s. Inr (replace_newline (strip s)))
        (decode_ascii ([36] @ body @ [13, 10])), reads (length body + 2) ?w2)"
    using b by (intro accumulate [OF _ _ rx2 t2]) simp_all
  finally show ?thesis by (simp only: w3 append_Cons append_Nil)
qed

lemma unat_of_char: "unat (of_char c :: byte) = of_char c"
proof -
  have "(of_char c :: byte) = of_nat (of_char c)" by (simp add: of_nat_of_char)
  then show ?thesis by (simp add: unat_of_nat take_bit_eq_mod)
qed

lemma char_of_unat_of_char: "char_of (unat (of_char c :: byte)) = c"
  by (simp add: unat_of_char)

lemma decode_36: "char_of (36 :: nat) = CHR ''$''"
  using char_of_char [of "CHR ''$''", where ?'a = nat] by simp

lemma decode_13: "char_of (13 :: nat) = CHR 0x0D"
  using char_of_char [of "CHR 0x0D", where ?'a = nat] by simp

lemma decode_10: "char_of (10 :: nat) = CHR 0x0A"
  using char_of_char [of "CHR 0x0A", where ?'a = nat] by simp

lemma strip_crlf: "strip (s @ [CHR 0x0D, CHR 0x0A]) = strip s"
  by (simp add: strip_def isspace_def)

lemma decode_frame:
  "list_all (\<lambda>b. unat b < 128) body \<Longrightarrow>
   decode_ascii (36 # body @ [13, 10]) =
     Inr ((CHR ''$'' # map (\<lambda>b. char_of (unat b)) body) @ [CHR 0x0D, CHR 0x0A])"
  by (simp add: decode_ascii_def decode_36 decode_13 decode_10)

lemma read_sentence_ascii_frame:
  assumes "36 \<notin> set garbage" and "crlf_free (36 # body)"
    and "list_all (\<lambda>b. unat b < 128) body"
    and "rx w = garbage @- (36 ## (body @- (13 ## 10 ## rest)))"
    and "now (reads (length garbage + length body + 2) w) < timeout + now w"
  shows "read_sentence self timeout w =
     (Inr (replace_newline (strip (CHR ''$'' # map (\<lambda>b. char_of (unat b)) body))),
      reads (length garbage + length body + 3) w)"
  by (simp only: read_sentence_frame [OF assms(1,2,4,5)] decode_frame [OF assms(3)]
      strip_crlf sum.case)

text \<open>
  C4, as the code has it. Let the stream be bytes without \<open>$\<close>, then \<open>$\<close>, then ASCII
  sentence bytes without a CR LF pair, then CR LF, and let the read of the last of these
  bytes begin before the deadline. Then \<open>read_sentence\<close> consumes exactly these bytes and
  returns the text from \<open>$\<close> through the byte before the CR LF, with all white space at its
  end removed (and not only the closing CR LF), and then every line feed inside removed.
\<close>

theorem read_sentence_resync:
  assumes "36 \<notin> set garbage" and "crlf_free (36 # body)"
    and "list_all (\<lambda>b. unat b < 128) body"
    and "rx w = garbage @- (36 ## (body @- (13 ## 10 ## rest)))"
    and "now (reads (length garbage + length body + 2) w) < timeout + now w"
  shows "read_sentence self timeout w =
     (Inr (replace_newline (strip (CHR ''$'' # map (\<lambda>b. char_of (unat b)) body))),
      reads (length garbage + length body + 3) w) \<and>
     rx (reads (length garbage + length body + 3) w) = rest"
proof -
  have "sdrop (length garbage + length body + 3) (rx w) = rest"
    unfolding assms(4) by (simp add: sdrop_shift numeral_3_eq_3 numeral_2_eq_2)
  then show ?thesis
    using read_sentence_ascii_frame [OF assms] by (simp add: rx_reads)
qed

lemma latency_reads_1: "latency (reads (Suc 0) w) = stl (latency w)"
  by (simp add: reads.simps read_byte_data_def)

lemma now_reads_1: "now (reads (Suc 0) w) = now w + Suc (shd (latency w))"
  by (simp add: reads.simps read_byte_data_def)

lemma now_reads_const:
  "(\<And>k. latency w !! k = c) \<Longrightarrow> now (reads n w) = now w + n * Suc c"
proof (induction n arbitrary: w)
  case 0
  show ?case by simp
next
  case (Suc n)
  let ?w = "reads (Suc 0) w"
  have l: "latency ?w !! k = c" for k
    using Suc.prems [of "Suc k"] by (simp add: latency_reads_1)
  have t: "now ?w = now w + Suc c"
    using Suc.prems [of 0] by (simp add: now_reads_1)
  from Suc.IH [OF l] t show ?case
    by (simp add: reads_Suc [of n])
qed

lemma sconst_snth: "sconst c !! k = c"
  by simp

theorem read_sentence_resync_witness:
  "36 \<notin> set [10, 65 :: byte] \<and>
   crlf_free (36 # map of_char ''GPG'' @ [10] @ map of_char ''LL'') \<and>
   list_all (\<lambda>b. unat b < 128) (map of_char ''GPG'' @ [10 :: byte] @ map of_char ''LL'') \<and>
   now (reads 10 noisy_world) < 5 * ticks_per_second + now noisy_world \<and>
   read_sentence fresh (5 * ticks_per_second) noisy_world = (Inr ''$GPGLL'', reads 11 noisy_world) \<and>
   rx (reads 11 noisy_world) = sconst 10"
proof -
  let ?g = "[10, 65 :: byte]"
  let ?b = "map of_char ''GPG'' @ [10 :: byte] @ map of_char ''LL''"
  have g: "36 \<notin> set ?g" by simp
  have c: "crlf_free (36 # ?b)" by simp
  have a: "list_all (\<lambda>b. unat b < 128) ?b" by simp
  have r: "rx noisy_world = ?g @- (36 ## (?b @- (13 ## 10 ## sconst 10)))"
    by (simp add: noisy_world_def)
  have n: "now (reads k noisy_world) = k" for k
    using now_reads_const [of noisy_world 0 k] by (simp add: noisy_world_def)
  have t: "now (reads (length ?g + length ?b + 2) noisy_world)
      < 5 * ticks_per_second + now noisy_world"
    by (simp add: n ticks_per_second_def)
  have s: "replace_newline (strip (CHR ''$'' # map (\<lambda>b. char_of (unat b)) ?b)) = ''$GPGLL''"
    by (simp add: replace_newline_def strip_def isspace_def char_of_def bit_0)
  from read_sentence_resync [OF g c a r t, of fresh] g c a n
  show ?thesis
    by (simp add: ticks_per_second_def replace_newline_def strip_def isspace_def char_of_def bit_0)
qed

text \<open>
  C4 as stated fails where the sentence ends in white space: of the frame \<open>$A\<close>, space,
  CR LF the reader returns \<open>$A\<close>, and not the text up to the byte before the CR LF.
\<close>

theorem read_sentence_resync_counterexample:
  "rx padded_world = [] @- (36 ## (map of_char ''A '' @- (13 ## 10 ## sconst 10))) \<and>
   spec_sentence (map of_char ''A '') = ''$A '' \<and>
   fst (read_sentence fresh (5 * ticks_per_second) padded_world) = Inr ''$A'' \<and>
   fst (read_sentence fresh (5 * ticks_per_second) padded_world)
     \<noteq> Inr (spec_sentence (map of_char ''A ''))"
proof -
  let ?b = "map of_char ''A '' :: byte list"
  have r: "rx padded_world = [] @- (36 ## (?b @- (13 ## 10 ## sconst 10)))"
    by (simp add: padded_world_def)
  have n: "now (reads k padded_world) = k" for k
    using now_reads_const [of padded_world 0 k] by (simp add: padded_world_def)
  have t: "now (reads (length ([] :: byte list) + length ?b + 2) padded_world)
      < 5 * ticks_per_second + now padded_world"
    by (simp add: n ticks_per_second_def)
  have s: "replace_newline (strip (CHR ''$'' # map (\<lambda>b. char_of (unat b)) ?b)) = ''$A''"
    by (simp add: replace_newline_def strip_def isspace_def char_of_def bit_0)
  have p: "spec_sentence ?b = ''$A ''"
    by (simp add: spec_sentence_def char_of_def bit_0)
  have "read_sentence fresh (5 * ticks_per_second) padded_world
      = (Inr ''$A'', reads (length ([] :: byte list) + length ?b + 3) padded_world)"
    using read_sentence_ascii_frame [OF _ _ _ r t, of fresh]
    by (simp add: replace_newline_def strip_def isspace_def char_of_def bit_0)
  then have f: "fst (read_sentence fresh (5 * ticks_per_second) padded_world) = Inr ''$A''"
    by simp
  show ?thesis
    unfolding f p using r by simp
qed

section \<open>Folding one sentence into the fix\<close>

text \<open>
  C5, as the code has it. A GGA sentence whose quality field is absent (\<open>None\<close>) sets
  \<open>num_sats\<close> and \<open>gps_qual\<close> to 0 and leaves every other field as it was. Every GGA
  sentence, the quality 0 included, leaves \<open>pdop\<close>, \<open>hdop\<close>, \<open>vdop\<close>, the speed and
  the fix mode as they were.
\<close>

theorem fold_GGA:
  "(gga_gps_qual r = PyNone \<longrightarrow>
      fst (snd (dispatch P wait_for sentence (GGA r) self w)) =
        self\<lparr>num_sats := PyInt 0, gps_qual := PyInt 0\<rparr>) \<and>
   (let self' = fst (snd (dispatch P wait_for sentence (GGA r) self w))
    in pdop self' = pdop self \<and> hdop self' = hdop self \<and> vdop self' = vdop self \<and>
       speed_over_ground self' = speed_over_ground self \<and>
       mode_fix_type self' = mode_fix_type self \<and>
       i2c_addr self' = i2c_addr self \<and> debug self' = debug self)"
  by (simp add: dispatch_def Let_def)

theorem fold_GGA_witness:
  "gga_gps_qual gga_no_quality = PyNone \<and>
   fst (snd (dispatch no_parser ''GGA'' ''$GPGGA'' (GGA gga_no_quality) fresh idle_world)) =
     fresh\<lparr>num_sats := PyInt 0, gps_qual := PyInt 0\<rparr> \<and>
   pdop (fst (snd (dispatch no_parser ''GGA'' ''$GPGGA'' (GGA gga_no_quality) fresh idle_world))) = PyNone"
proof -
  have q: "gga_gps_qual gga_no_quality = PyNone" by (simp add: gga_no_quality_def)
  have p: "pdop fresh = PyNone" by (simp add: fresh_def init_def)
  from fold_GGA [of gga_no_quality no_parser "''GGA''" "''$GPGGA''" fresh idle_world] q p
  show ?thesis by (simp add: Let_def)
qed

text \<open>
  C5 as stated fails for a GGA sentence whose quality is the int 0: the test is
  \<open>gps_qual is None\<close>, so the sentence is folded whole, \<open>num_sats\<close> becomes the text
  \<open>00\<close> of the sentence and the timestamp changes.
\<close>

theorem fold_GGA_counterexample:
  "gga_gps_qual gga_quality_zero = PyInt 0 \<and>
   num_sats (fst (snd (dispatch no_parser ''GGA'' ''$GPGGA'' (GGA gga_quality_zero) fresh idle_world)))
     = PyObj ''00'' \<and>
   timestamp (fst (snd (dispatch no_parser ''GGA'' ''$GPGGA'' (GGA gga_quality_zero) fresh idle_world)))
     = PyObj ''12:35:19'' \<and>
   fst (snd (dispatch no_parser ''GGA'' ''$GPGGA'' (GGA gga_quality_zero) fresh idle_world)) \<noteq>
     fresh\<lparr>num_sats := PyInt 0, gps_qual := PyInt 0\<rparr>"
  by (simp add: dispatch_def gga_quality_zero_def gga_no_quality_def fresh_def init_def)

text \<open>
  C6. A GSA sentence sets \<open>mode_fix_type\<close>, \<open>pdop\<close>, \<open>hdop\<close> and \<open>vdop\<close> from the
  parsed record and nothing else: latitude, longitude, \<open>num_sats\<close> and every other field,
  and the world, are as before.
\<close>

theorem fold_GSA:
  "fst (snd (dispatch P wait_for sentence (GSA r) self w)) =
     self\<lparr>mode_fix_type := gsa_mode_fix_type r, pdop := gsa_pdop r,
            hdop := gsa_hdop r, vdop := gsa_vdop r\<rparr> \<and>
   (let self' = fst (snd (dispatch P wait_for sentence (GSA r) self w))
    in latitude self' = latitude self \<and> longitude self' = longitude self \<and>
       num_sats self' = num_sats self \<and> timestamp self' = timestamp self \<and>
       altitude self' = altitude self \<and> gps_qual self' = gps_qual self \<and>
       speed_over_ground self' = speed_over_ground self \<and>
       i2c_addr self' = i2c_addr self \<and> debug self' = debug self) \<and>
   snd (snd (dispatch P wait_for sentence (GSA r) self w)) = w"
  by (simp add: dispatch_def Let_def)

section \<open>The loop of update\<close>



lemma update_loop_stop:
  "now w < timeout \<Longrightarrow> loop_body P wait_for self w = (Some res, self', w') \<Longrightarrow>
   update_loop P wait_for timeout self w = (res, self', w')"
  by (subst update_loop.simps) simp

lemma loop_body_parsed:
  "read_sentence self (5 * ticks_per_second) w = (Inr line, w1) \<Longrightarrow>
   parse P line = Some result \<Longrightarrow>
   loop_body P wait_for self w = dispatch P wait_for line result self w1"
  by (simp add: loop_body_def)




lemma dispatch_unrecognized:
  "unrecognized P result \<Longrightarrow>
   dispatch P wait_for line result self w =
     (Some (Inl (RuntimeError (''Unsupported message type '' @ type_repr result
                               @ '' ('' @ line @ '')''))), self, w)"
  by (cases result) (auto simp: dispatch_def mtk_classes_def)



lemma dispatch_i2c_addr:
  "i2c_addr (fst (snd (dispatch P wait_for line result self w))) = i2c_addr self"
  by (cases result) (simp_all add: dispatch_def Let_def split: sum.splits option.splits)










section \<open>Concrete runs of the reader and of update\<close>

lemma reads_fast:
  "latency w = replicate n 0 @- l \<Longrightarrow> k \<le> n \<Longrightarrow>
   reads k w = w\<lparr>now := now w + k, rx := sdrop k (rx w), latency := replicate (n - k) 0 @- l\<rparr>"
proof (induction k arbitrary: w n)
  case 0
  then show ?case by simp
next
  case (Suc k)
  then obtain n' where n: "n = Suc n'" by (cases n) auto
  let ?w = "reads (Suc 0) w"
  have w1: "?w = w\<lparr>now := Suc (now w), rx := stl (rx w), latency := replicate n' 0 @- l\<rparr>"
    using Suc.prems(1) by (simp add: reads.simps read_byte_data_def n)
  then have l: "latency ?w = replicate n' 0 @- l" by simp
  have "reads (Suc k) w = reads k ?w" by (rule reads_Suc)
  also have "\<dots> = ?w\<lparr>now := now ?w + k, rx := sdrop k (rx ?w),
      latency := replicate (n' - k) 0 @- l\<rparr>"
    using Suc.prems(2) by (intro Suc.IH [OF l]) (simp add: n)
  finally show ?case by (simp add: w1 n)
qed

lemma frame_world_after:
  "reads (length body + 3) (frame_world body) = slow_world\<lparr>now := length body + 3\<rparr>"
proof -
  have "sdrop (length body + 3) (36 ## (body @- (13 ## 10 ## sconst 10))) = sconst 10"
    by (simp add: sdrop_shift numeral_3_eq_3 numeral_2_eq_2)
  then show ?thesis
    using reads_fast [of "frame_world body" "length body + 3" "sconst 4999999" "length body + 3"]
    by (simp add: frame_world_def slow_world_def)
qed

lemma frame_world_now:
  "k \<le> length body + 3 \<Longrightarrow> now (reads k (frame_world body)) = k"
  using reads_fast [of "frame_world body" "length body + 3" "sconst 4999999" k]
  by (simp add: frame_world_def)

lemma read_sentence_frame_world:
  assumes "crlf_free (36 # body)" and "length body + 2 < 5 * ticks_per_second"
  shows "read_sentence self (5 * ticks_per_second) (frame_world body) =
     (case_sum Inl (\<lambda>s. Inr (replace_newline (strip s))) (decode_ascii (36 # body @ [13, 10])),
      slow_world\<lparr>now := length body + 3\<rparr>)"
proof -
  have r: "rx (frame_world body) = [] @- (36 ## (body @- (13 ## 10 ## sconst 10)))"
    by (simp add: frame_world_def)
  have t: "now (reads (length ([] :: byte list) + length body + 2) (frame_world body))
      < 5 * ticks_per_second + now (frame_world body)"
    using assms(2) by (simp add: frame_world_now)
  show ?thesis
    using read_sentence_frame [OF _ assms(1) r t, of self]
    by (simp add: frame_world_after)
qed



lemma unat_of_char_lt: "unat (of_char c :: byte) < 128 \<longleftrightarrow> (of_char c :: nat) < 128"
  by (simp add: unat_of_char)



lemma read_GPZDA:
  "read_sentence fresh (5 * ticks_per_second) (frame_world (map of_char ''GPZDA'')) =
     (Inr ''$GPZDA'', slow_world\<lparr>now := 8\<rparr>)"
  using read_sentence_frame_world [of "map of_char ''GPZDA''" fresh]
  by (simp add: ticks_per_second_def decode_ascii_def replace_newline_def strip_def isspace_def
      char_of_def bit_0)



section \<open>When update returns\<close>




text \<open>
  C8. At any pass of the loop before the deadline, when the line read parses to a sentence
  that no branch accepts, \<open>update\<close> raises \<open>RuntimeError\<close> at once, with the class and
  the line in its message, the fix unchanged and no byte read after the line. This holds
  whether or not the library has the MTK classes: where it has not, the
  \<open>AttributeError\<close> of the lookup is caught and the same error is raised.
\<close>

theorem update_unsupported:
  assumes "now w < deadline"
    and "read_sentence self (5 * ticks_per_second) w = (Inr line, w1)"
    and "parse P line = Some result"
    and "unrecognized P result"
  shows "update_loop P wait_for deadline self w =
           (Inl (RuntimeError (''Unsupported message type '' @ type_repr result
                               @ '' ('' @ line @ '')'')), self, w1)"
proof -
  have "loop_body P wait_for self w =
      (Some (Inl (RuntimeError (''Unsupported message type '' @ type_repr result
                               @ '' ('' @ line @ '')''))), self, w1)"
    by (simp only: loop_body_parsed [OF assms(2,3)] dispatch_unrecognized [OF assms(4)])
  then show ?thesis
    by (rule update_loop_stop [OF assms(1)])
qed

theorem update_unsupported_witness:
  "now (frame_world (map of_char ''GPZDA'')) < ticks_per_second \<and>
   read_sentence fresh (5 * ticks_per_second) (frame_world (map of_char ''GPZDA'')) =
     (Inr ''$GPZDA'', slow_world\<lparr>now := 8\<rparr>) \<and>
   parse demo_parser ''$GPZDA'' = Some (OtherSentence ''pynmea2.types.talker'' ''ZDA'') \<and>
   unrecognized demo_parser (OtherSentence ''pynmea2.types.talker'' ''ZDA'') \<and>
   mtk_classes demo_parser = Inl AttributeError \<and>
   update_loop demo_parser ''GGA'' ticks_per_second fresh (frame_world (map of_char ''GPZDA'')) =
     (Inl (RuntimeError (''Unsupported message type ''
             @ class_repr ''pynmea2.types.talker'' ''ZDA'' @ '' ($GPZDA)'')),
      fresh, slow_world\<lparr>now := 8\<rparr>)"
proof -
  have t: "now (frame_world (map of_char ''GPZDA'')) < ticks_per_second"
    by (simp add: frame_world_def ticks_per_second_def)
  have p: "parse demo_parser ''$GPZDA'' = Some (OtherSentence ''pynmea2.types.talker'' ''ZDA'')"
    by (simp add: demo_parser_def)
  have u: "unrecognized demo_parser (OtherSentence ''pynmea2.types.talker'' ''ZDA'')"
    by simp
  have m: "mtk_classes demo_parser = Inl AttributeError"
    by (simp add: mtk_classes_def demo_parser_def)
  from update_unsupported [OF t read_GPZDA p u, of "''GGA''"] t read_GPZDA p u m
  show ?thesis by simp
qed





end
